theory Spec2Isabelle
  imports Complex_Main "HOL-Library.AList" "HOL-Library.Sublist"
begin

section \<open>Lightbox viewer (static/js/attachments.js, "Viewer (lightbox)")\<close>

text \<open>
  JavaScript numbers are modelled as exact reals: the rounding error of IEEE doubles is
  outside the model, as are the non-finite values. The one operation of the viewer that
  could produce a non-finite value, the division in \<open>onPointerMove\<close>, is modelled by
  \<open>js_div\<close>, which has no result for a zero divisor. The model therefore agrees with the
  script on which branch is taken and on the bounds of the scale, and on the stored scale
  wherever the exact result is not within rounding error of a half-way point between two
  hundredths; at such a point (a pinch whose exact product is 1.005, say) the script rounds
  the double it computed, which may fall on the other side. Nothing below depends on the
  value stored at such a point.
\<close>

record pointer_event =
  pointerId :: int
  clientX :: real
  clientY :: real

text \<open>A wheel event, together with what \<open>overlayImage.getBoundingClientRect()\<close>
  returns when the handler runs.\<close>

record wheel_event =
  deltaY :: real
  wheelClientX :: real
  wheelClientY :: real
  rectLeft :: real
  rectTop :: real
  rectWidth :: real
  rectHeight :: real

text \<open>The module-level variables of the viewer. \<open>pointers\<close> is the JavaScript
  \<open>Map\<close> from pointer id to the last event of that pointer, in insertion order;
  \<open>zoomed\<close> and \<open>dragging\<close> are the two CSS classes toggled on the overlay.\<close>

record lightbox =
  scale :: real
  panX :: real
  panY :: real
  isDragging :: bool
  dragStartX :: real
  dragStartY :: real
  initialPinchDistance :: real
  pinchStartScale :: real
  pointers :: "(int \<times> pointer_event) list"
  zoomed :: bool
  dragging :: bool

definition SCALE_STEP :: real where
  "SCALE_STEP = 0.25"

definition MIN_SCALE :: real where
  "MIN_SCALE = 1"

definition MAX_SCALE :: real where
  "MAX_SCALE = 5"

text \<open>The state the script starts with (lines 59-70).\<close>

definition lightbox_init :: lightbox where
  "lightbox_init =
     \<lparr>scale = 1, panX = 0, panY = 0, isDragging = False, dragStartX = 0, dragStartY = 0,
      initialPinchDistance = 0, pinchStartScale = 1, pointers = [], zoomed = False,
      dragging = False\<rparr>"

text \<open>\<open>parseFloat(x.toFixed(2))\<close>: \<open>toFixed\<close> takes the integer \<open>n\<close> with
  \<open>n / 100\<close> closest to the magnitude of \<open>x\<close>, the larger one on a tie, and keeps
  the sign of \<open>x\<close>. Here \<open>x\<close> is the exact real; in the script it is the value of
  the double that the preceding arithmetic produced.\<close>

definition toFixed2 :: "real \<Rightarrow> real" where
  "toFixed2 x =
     (if x < 0 then - (real_of_int (round (- x * 100)) / 100)
      else real_of_int (round (x * 100)) / 100)"

definition updateTransform :: "lightbox \<Rightarrow> lightbox" where
  "updateTransform s = s\<lparr>zoomed := (scale s > 1.01)\<rparr>"

definition setScale :: "real \<Rightarrow> bool \<Rightarrow> lightbox \<Rightarrow> lightbox" where
  "setScale next keepPan s =
     (let clamped = min MAX_SCALE (max MIN_SCALE next);
          s1 = s\<lparr>scale := toFixed2 clamped\<rparr>;
          s2 = (if \<not> keepPan \<and> scale s1 = MIN_SCALE then s1\<lparr>panX := 0, panY := 0\<rparr> else s1)
      in updateTransform s2)"

definition stepZoom :: "real \<Rightarrow> lightbox \<Rightarrow> lightbox" where
  "stepZoom delta s = setScale (scale s + delta) False s"

definition resetTransform :: "lightbox \<Rightarrow> lightbox" where
  "resetTransform s = updateTransform (s\<lparr>scale := 1, panX := 0, panY := 0\<rparr>)"

definition onWheel :: "wheel_event \<Rightarrow> lightbox \<Rightarrow> lightbox" where
  "onWheel ev s =
     (let direction = (if deltaY ev < 0 then 1 else - 1);
          prevScale = scale s;
          s1 = stepZoom (direction * SCALE_STEP) s
      in if scale s1 > prevScale then
           (let offsetX = wheelClientX ev - (rectLeft ev + rectWidth ev / 2);
                offsetY = wheelClientY ev - (rectTop ev + rectHeight ev / 2)
            in updateTransform
                 (s1\<lparr>panX := panX s1 + offsetX * 0.05, panY := panY s1 + offsetY * 0.05\<rparr>))
         else s1)"

definition distanceBetween :: "pointer_event \<Rightarrow> pointer_event \<Rightarrow> real" where
  "distanceBetween a b = sqrt ((clientX a - clientX b)\<^sup>2 + (clientY a - clientY b)\<^sup>2)"

text \<open>Division of JavaScript numbers: a zero divisor gives \<open>Infinity\<close> or \<open>NaN\<close>,
  which the model has no value for.\<close>

definition js_div :: "real \<Rightarrow> real \<Rightarrow> real option" where
  "js_div a b = (if b = 0 then None else Some (a / b))"

text \<open>\<open>Array.from(pointers.values())\<close> and the distance between its first two entries
  (read only when the map has two entries).\<close>

definition pointer_values :: "lightbox \<Rightarrow> pointer_event list" where
  "pointer_values s = map snd (pointers s)"

definition pinch_distance :: "lightbox \<Rightarrow> real" where
  "pinch_distance s = distanceBetween (pointer_values s ! 0) (pointer_values s ! 1)"

definition onPointerDown :: "pointer_event \<Rightarrow> lightbox \<Rightarrow> lightbox" where
  "onPointerDown ev s =
     (let s1 = s\<lparr>pointers := AList.update (pointerId ev) ev (pointers s)\<rparr>;
          s2 = (if length (pointers s1) = 1 then
                  s1\<lparr>isDragging := (scale s1 > 1),
                      dragStartX := clientX ev - panX s1,
                      dragStartY := clientY ev - panY s1\<rparr>
                else if length (pointers s1) = 2 then
                  s1\<lparr>initialPinchDistance := pinch_distance s1, pinchStartScale := scale s1\<rparr>
                else s1)
      in s2\<lparr>dragging := True\<rparr>)"

definition onPointerMove :: "pointer_event \<Rightarrow> lightbox \<Rightarrow> lightbox option" where
  "onPointerMove ev s =
     (if map_of (pointers s) (pointerId ev) = None then Some s
      else
        (let s1 = s\<lparr>pointers := AList.update (pointerId ev) ev (pointers s)\<rparr>
         in if length (pointers s1) = 1 \<and> isDragging s1 then
              (let pointer = hd (pointer_values s1)
               in Some (updateTransform
                          (s1\<lparr>panX := clientX pointer - dragStartX s1,
                              panY := clientY pointer - dragStartY s1\<rparr>)))
            else if length (pointers s1) = 2 then
              (let currentDistance = pinch_distance s1
               in if initialPinchDistance s1 > 0 then
                    (case js_div currentDistance (initialPinchDistance s1) of
                       None \<Rightarrow> None
                     | Some ratio \<Rightarrow> Some (setScale (pinchStartScale s1 * ratio) True s1))
                  else Some s1)
            else Some s1))"

definition onPointerUp :: "pointer_event \<Rightarrow> lightbox \<Rightarrow> lightbox" where
  "onPointerUp ev s =
     (let s1 = s\<lparr>dragging := False, pointers := AList.delete (pointerId ev) (pointers s)\<rparr>;
          s2 = (if length (pointers s1) < 2 then
                  s1\<lparr>initialPinchDistance := 0, pinchStartScale := scale s1\<rparr>
                else s1)
      in if length (pointers s2) = 0 then s2\<lparr>isDragging := False\<rparr> else s2)"

text \<open>The part of \<open>closeOverlay\<close> that touches the view state.\<close>

definition closeOverlay :: "lightbox \<Rightarrow> lightbox" where
  "closeOverlay s =
     s\<lparr>pointers := [], isDragging := False, initialPinchDistance := 0, pinchStartScale := 1\<rparr>"

text \<open>The operations a user can perform on the lightbox. \<open>ZoomIn\<close>, \<open>ZoomOut\<close> and
  \<open>Reset\<close> are what both the toolbar buttons (\<open>onOverlayClick\<close>) and the keys
  (\<open>onKeyDown\<close>) dispatch to; \<open>OpenImage\<close> is \<open>openOverlay\<close> on a trigger with a
  source, whose effect on the view state is \<open>resetTransform\<close>.\<close>

datatype lightbox_op =
    ZoomIn
  | ZoomOut
  | Reset
  | OpenImage
  | CloseViewer
  | Wheel wheel_event
  | PointerDown pointer_event
  | PointerMove pointer_event
  | PointerUp pointer_event

fun apply_op :: "lightbox_op \<Rightarrow> lightbox \<Rightarrow> lightbox option" where
  "apply_op ZoomIn s = Some (stepZoom SCALE_STEP s)"
| "apply_op ZoomOut s = Some (stepZoom (- SCALE_STEP) s)"
| "apply_op Reset s = Some (resetTransform s)"
| "apply_op OpenImage s = Some (resetTransform s)"
| "apply_op CloseViewer s = Some (closeOverlay s)"
| "apply_op (Wheel ev) s = Some (onWheel ev s)"
| "apply_op (PointerDown ev) s = Some (onPointerDown ev s)"
| "apply_op (PointerMove ev) s = onPointerMove ev s"
| "apply_op (PointerUp ev) s = Some (onPointerUp ev s)"

fun run_ops :: "lightbox_op list \<Rightarrow> lightbox \<Rightarrow> lightbox option" where
  "run_ops [] s = Some s"
| "run_ops (x # xs) s = (case apply_op x s of None \<Rightarrow> None | Some s' \<Rightarrow> run_ops xs s')"


text \<open>The cursor's offset from the centre of the image, as \<open>onWheel\<close> computes it.\<close>

definition wheel_offsetX :: "wheel_event \<Rightarrow> real" where
  "wheel_offsetX ev = wheelClientX ev - (rectLeft ev + rectWidth ev / 2)"

definition wheel_offsetY :: "wheel_event \<Rightarrow> real" where
  "wheel_offsetY ev = wheelClientY ev - (rectTop ev + rectHeight ev / 2)"

text \<open>A number is a multiple of 0.01 when a hundred times it is an integer.\<close>

definition is_centi :: "real \<Rightarrow> bool" where
  "is_centi x = (real_of_int \<lfloor>x * 100\<rfloor> = x * 100)"


section \<open>Attachment gallery (static/js/attachments.js, "Attachment actions")\<close>

text \<open>
  Strings read from the DOM or from JSON are modelled as \<open>string\<close>, with the empty
  string standing for every falsy value (\<open>undefined\<close>, \<open>null\<close>, \<open>""\<close>): the script
  only ever tests them for truthiness. \<open>js_or a b\<close> is \<open>a || b\<close> on such strings.
\<close>

definition js_or :: "string \<Rightarrow> string \<Rightarrow> string" where
  "js_or a b = (if a \<noteq> [] then a else b)"

text \<open>The fields of an attachment's metadata that decide which card is rendered;
  \<open>meta_id\<close> is \<open>String(meta.id)\<close>. An entry of the response that is not an object
  is \<open>NotAnObject\<close>.\<close>

record attachment_meta =
  meta_id :: string
  meta_name :: string
  meta_url :: string
  meta_category :: string
  meta_is_image :: bool

datatype json_entry = NotAnObject | Meta attachment_meta

text \<open>A rendered \<open>li.attachments-grid__item\<close>: its \<open>data-attachment-id\<close>, the class of
  its article, its title and the source of its viewer button, if it has one.\<close>

record attachment_card =
  attachmentId :: string
  articleClass :: string
  cardTitle :: string
  viewerSrc :: "string option"

record empty_state =
  hidden :: bool
  textContent :: string

text \<open>The gallery: the cards inside \<open>[data-attachments]\<close> in document order, and the
  \<open>[data-attachments-empty]\<close> element, which the page may lack.\<close>

record gallery =
  cards :: "attachment_card list"
  emptyState :: "empty_state option"

fun renderAttachment :: "json_entry \<Rightarrow> attachment_card option" where
  "renderAttachment NotAnObject = None"
| "renderAttachment (Meta m) =
     Some \<lparr>attachmentId = meta_id m,
           articleClass = ''attachment-card attachment-card--'' @ js_or (meta_category m) ''file'',
           cardTitle = js_or (meta_name m) ''Attachment'',
           viewerSrc = (if meta_is_image m \<and> meta_url m \<noteq> [] then Some (meta_url m) else None)\<rparr>"

definition updateEmptyState :: "string \<Rightarrow> gallery \<Rightarrow> gallery" where
  "updateEmptyState fallbackEmptyLabel g =
     (case emptyState g of
        None \<Rightarrow> g
      | Some e \<Rightarrow>
          (let hasItems = (cards g \<noteq> [])
           in if hasItems
              then g\<lparr>emptyState := Some (e\<lparr>hidden := True, textContent := fallbackEmptyLabel\<rparr>)\<rparr>
              else g\<lparr>emptyState := Some (e\<lparr>hidden := False, textContent := fallbackEmptyLabel\<rparr>)\<rparr>))"

text \<open>\<open>existing\<close> is the first card with the entry's id (\<open>querySelector\<close>); it is
  removed, and the new card is inserted before the first remaining card, or appended to
  an empty list.\<close>

definition addAttachmentFromMeta :: "string \<Rightarrow> json_entry \<Rightarrow> gallery \<Rightarrow> gallery" where
  "addAttachmentFromMeta fallbackEmptyLabel meta g =
     (case renderAttachment meta of
        None \<Rightarrow> g
      | Some element \<Rightarrow>
          (let existing = find (\<lambda>c. attachmentId c = attachmentId element) (cards g);
               cs1 = (case existing of None \<Rightarrow> cards g | Some e \<Rightarrow> remove1 e (cards g));
               cs2 = (case cs1 of [] \<Rightarrow> cs1 @ [element] | first # rest \<Rightarrow> element # cs1)
           in updateEmptyState fallbackEmptyLabel (g\<lparr>cards := cs2\<rparr>)))"

definition empty_state_visible :: "gallery \<Rightarrow> bool" where
  "empty_state_visible g = (case emptyState g of None \<Rightarrow> False | Some e \<Rightarrow> \<not> hidden e)"

definition exactly_one_of :: "gallery \<Rightarrow> bool" where
  "exactly_one_of g = ((cards g \<noteq> []) \<noteq> empty_state_visible g)"

text \<open>Merging a list of response entries, in order (\<open>attachments.forEach\<close>).\<close>

definition merge_attachments :: "string \<Rightarrow> json_entry list \<Rightarrow> gallery \<Rightarrow> gallery" where
  "merge_attachments fallbackEmptyLabel ms g =
     foldl (\<lambda>g' m. addAttachmentFromMeta fallbackEmptyLabel m g') g ms"


section \<open>Upload queue (static/js/attachments.js, "Upload helper")\<close>

text \<open>
  The model covers a page whose upload root contains the queue container, so the guards
  \<open>if (queue)\<close> hold. Time is a clock in milliseconds; \<open>window.setTimeout\<close> records the
  time at which its callback is due, and \<open>elapse\<close> lets time pass and runs the callbacks
  that have become due. Progress events are not modelled.
\<close>

record file_error =
  fe_filename :: string
  fe_errors :: "string list option"

record upload_response =
  resp_error :: string
  resp_errors :: "file_error list option"
  resp_attachments :: "json_entry list option"

record labels =
  label_uploading :: string
  label_uploaded :: string
  label_failed :: string
  label_empty :: string

record queue_item =
  item_key :: nat
  item_name :: string
  status_text :: string
  cls_complete :: bool
  cls_error :: bool
  progress_width :: string

record uploader =
  clock :: nat
  next_key :: nat
  queue_hidden :: bool
  queue_items :: "queue_item list"
  timers :: "(nat \<times> nat) list"
  the_gallery :: gallery

text \<open>The script's last statement is \<open>updateEmptyState()\<close>.\<close>

definition uploader_init :: "labels \<Rightarrow> gallery \<Rightarrow> uploader" where
  "uploader_init lb g =
     \<lparr>clock = 0, next_key = 0, queue_hidden = True, queue_items = [], timers = [],
      the_gallery = updateEmptyState (label_empty lb) g\<rparr>"

fun join :: "string \<Rightarrow> string list \<Rightarrow> string" where
  "join sep [] = []"
| "join sep [x] = x"
| "join sep (x # y # ys) = x @ sep @ join sep (y # ys)"

text \<open>The message of a failed upload (lines 827-832); \<open>None\<close> is a response that is
  \<open>null\<close>.\<close>

definition error_message :: "string \<Rightarrow> upload_response option \<Rightarrow> string" where
  "error_message failed response =
     js_or (case response of None \<Rightarrow> [] | Some r \<Rightarrow> resp_error r)
       (js_or
          (case response of
             None \<Rightarrow> []
           | Some r \<Rightarrow>
               (case resp_errors r of
                  None \<Rightarrow> []
                | Some [] \<Rightarrow> []
                | Some (e # _) \<Rightarrow>
                    (case fe_errors e of None \<Rightarrow> [] | Some reasons \<Rightarrow> join '', '' reasons)))
          failed)"

definition createQueueItem :: "nat \<Rightarrow> string \<Rightarrow> string \<Rightarrow> queue_item" where
  "createQueueItem k name statusText =
     \<lparr>item_key = k, item_name = name, status_text = statusText, cls_complete = False,
      cls_error = False, progress_width = []\<rparr>"

definition uploadFile :: "labels \<Rightarrow> string \<Rightarrow> uploader \<Rightarrow> uploader" where
  "uploadFile lb name st =
     st\<lparr>queue_hidden := False,
        queue_items := queue_items st @ [createQueueItem (next_key st) name (label_uploading lb)],
        next_key := Suc (next_key st)\<rparr>"

text \<open>A handler of the request of item \<open>k\<close> changes that item.\<close>

definition update_item :: "nat \<Rightarrow> (queue_item \<Rightarrow> queue_item) \<Rightarrow> uploader \<Rightarrow> uploader" where
  "update_item k f st =
     st\<lparr>queue_items := map (\<lambda>i. if item_key i = k then f i else i) (queue_items st)\<rparr>"

definition scheduleQueueRemoval :: "nat \<Rightarrow> uploader \<Rightarrow> uploader" where
  "scheduleQueueRemoval k st = st\<lparr>timers := timers st @ [(clock st + 2500, k)]\<rparr>"

text \<open>The callback given to \<open>setTimeout\<close>.\<close>

definition removal_callback :: "nat \<Rightarrow> uploader \<Rightarrow> uploader" where
  "removal_callback k st =
     (let remaining = filter (\<lambda>i. item_key i \<noteq> k) (queue_items st)
      in st\<lparr>queue_items := remaining,
            queue_hidden := (if remaining = [] then True else queue_hidden st)\<rparr>)"

text \<open>
  The listener of the request's \<open>load\<close> event (lines 815-837). The request has
  \<open>responseType = "json"\<close>, so \<open>xhr.response\<close> is the parsed body, or \<open>null\<close> when the
  body is empty or is not JSON; \<open>xhr_response\<close> is \<open>None\<close> for \<open>null\<close>. Line 817
  evaluates \<open>xhr.response || safeParse(xhr.responseText)\<close>: for a \<open>null\<close> response the
  getter of \<open>responseText\<close> is read, which throws \<open>InvalidStateError\<close> for every
  response type other than text, outside the \<open>try\<close> of \<open>safeParse\<close> and before any
  line has touched the row.
\<close>

datatype js_error = InvalidStateError

definition load_listener ::
  "labels \<Rightarrow> nat \<Rightarrow> nat \<Rightarrow> upload_response option \<Rightarrow> uploader \<Rightarrow> js_error + uploader" where
  "load_listener lb k status xhr_response st =
     (case xhr_response of
        None \<Rightarrow> Inl InvalidStateError
      | Some r \<Rightarrow>
          (let response = Some r
           in if 200 \<le> status \<and> status < 300 then
                (let st1 = update_item k
                             (\<lambda>i. i\<lparr>cls_error := False, cls_complete := True,
                                    status_text := label_uploaded lb,
                                    progress_width := ''100%''\<rparr>) st;
                     attachments =
                       (case response of
                          None \<Rightarrow> []
                        | Some r' \<Rightarrow>
                            (case resp_attachments r' of None \<Rightarrow> [] | Some as \<Rightarrow> as));
                     st2 = st1\<lparr>the_gallery :=
                                 merge_attachments (label_empty lb) attachments (the_gallery st1)\<rparr>
                 in Inr (scheduleQueueRemoval k st2))
              else
                Inr (update_item k
                       (\<lambda>i. i\<lparr>cls_error := True,
                              status_text := error_message (label_failed lb) response,
                              progress_width := ''100%''\<rparr>) st)))"

text \<open>Dispatching the \<open>load\<close> event: an exception of the listener is reported and the
  page goes on in the state the listener left, which is the state before the event.\<close>

definition on_load :: "labels \<Rightarrow> nat \<Rightarrow> nat \<Rightarrow> upload_response option \<Rightarrow> uploader \<Rightarrow> uploader" where
  "on_load lb k status xhr_response st =
     (case load_listener lb k status xhr_response st of Inl e \<Rightarrow> st | Inr st' \<Rightarrow> st')"

definition on_error :: "labels \<Rightarrow> nat \<Rightarrow> uploader \<Rightarrow> uploader" where
  "on_error lb k st =
     update_item k
       (\<lambda>i. i\<lparr>cls_error := True, status_text := label_failed lb, progress_width := ''100%''\<rparr>) st"

definition elapse :: "nat \<Rightarrow> uploader \<Rightarrow> uploader" where
  "elapse d st =
     (let t = clock st + d;
          due = filter (\<lambda>(w, k). w \<le> t) (timers st);
          pending = filter (\<lambda>(w, k). \<not> w \<le> t) (timers st)
      in foldl (\<lambda>s (w, k). removal_callback k s) (st\<lparr>clock := t, timers := pending\<rparr>) due)"

datatype upload_event =
    FileChosen string
  | Load nat nat "upload_response option"
  | NetworkError nat
  | Elapse nat

fun upload_step :: "labels \<Rightarrow> upload_event \<Rightarrow> uploader \<Rightarrow> uploader" where
  "upload_step lb (FileChosen name) st = uploadFile lb name st"
| "upload_step lb (Load k status response) st = on_load lb k status response st"
| "upload_step lb (NetworkError k) st = on_error lb k st"
| "upload_step lb (Elapse d) st = elapse d st"

definition run_events :: "labels \<Rightarrow> upload_event list \<Rightarrow> uploader \<Rightarrow> uploader" where
  "run_events lb evs st = foldl (\<lambda>s e. upload_step lb e s) st evs"

definition in_queue :: "nat \<Rightarrow> uploader \<Rightarrow> bool" where
  "in_queue k st = (k \<in> set (map item_key (queue_items st)))"

definition has_timer :: "nat \<Rightarrow> uploader \<Rightarrow> bool" where
  "has_timer k st = (k \<in> set (map snd (timers st)))"

text \<open>An event that is not the successful completion of item \<open>k\<close>'s own request.\<close>

fun not_success_of :: "nat \<Rightarrow> upload_event \<Rightarrow> bool" where
  "not_success_of k (Load k' status response) =
     (k' \<noteq> k \<or> \<not> (200 \<le> status \<and> status < 300) \<or> response = None)"
| "not_success_of k e = True"

text \<open>The time that passes during a sequence of events.\<close>

fun event_duration :: "upload_event \<Rightarrow> nat" where
  "event_duration (Elapse d) = d"
| "event_duration e = 0"

definition elapsed :: "upload_event list \<Rightarrow> nat" where
  "elapsed evs = sum_list (map event_duration evs)"

text \<open>The classes of the row of item \<open>k\<close>.\<close>

definition item_complete :: "nat \<Rightarrow> uploader \<Rightarrow> bool option" where
  "item_complete k st = map_option cls_complete (find (\<lambda>i. item_key i = k) (queue_items st))"

definition item_error :: "nat \<Rightarrow> uploader \<Rightarrow> bool option" where
  "item_error k st = map_option cls_error (find (\<lambda>i. item_key i = k) (queue_items st))"

text \<open>The situation of item \<open>k\<close> once its removal is due at time \<open>T\<close>: before \<open>T\<close>
  the row is in the queue and the timer is pending, with no earlier timer for the row;
  from \<open>T\<close> on the row is gone. New rows get keys above \<open>k\<close>.\<close>

definition removal_due :: "nat \<Rightarrow> nat \<Rightarrow> uploader \<Rightarrow> bool" where
  "removal_due k T s =
     (k < next_key s \<and> T \<le> clock s + 2500 \<and>
      (if clock s < T
       then in_queue k s \<and> (T, k) \<in> set (timers s) \<and> list_all (\<lambda>(w, k'). k' = k \<longrightarrow> T \<le> w) (timers s)
       else \<not> in_queue k s))"

text \<open>What the queue shows for item \<open>k\<close>: the status text of its row.\<close>

definition item_status :: "nat \<Rightarrow> uploader \<Rightarrow> string option" where
  "item_status k st = map_option status_text (find (\<lambda>i. item_key i = k) (queue_items st))"

text \<open>The validation errors of the first per-file entry of \<open>response.errors\<close>, none when
  the array or the entry's own \<open>errors\<close> is missing.\<close>

definition first_file_reasons :: "upload_response \<Rightarrow> string list" where
  "first_file_reasons r =
     (case resp_errors r of
        None \<Rightarrow> []
      | Some [] \<Rightarrow> []
      | Some (e # _) \<Rightarrow> (case fe_errors e of None \<Rightarrow> [] | Some reasons \<Rightarrow> reasons))"


section \<open>Clicks on the gallery (\<open>onAttachmentsClick\<close>) and the document preview modal\<close>

text \<open>
  A trigger is an element with \<open>data-src\<close>, \<open>data-external\<close> and \<open>data-name\<close>
  attributes. A click is modelled by what the handler reads from it: whether its target is
  an \<open>HTMLElement\<close>, and the results of \<open>target.closest("[data-attachment-viewer]")\<close>
  and \<open>target.closest("[data-attachment-preview]")\<close>. The page state records the two
  overlays and the calls of \<open>window.open\<close>.
\<close>

record trigger =
  data_src :: string
  data_external :: string
  data_name :: string

record click_event =
  target_is_element :: bool
  closest_viewer :: "trigger option"
  closest_preview :: "trigger option"

record page =
  overlay_visible :: bool
  overlay_image_src :: string
  view :: lightbox
  doc_overlay_visible :: bool
  doc_frame_src :: string
  doc_title_text :: string
  window_open_calls :: "(string \<times> string) list"

definition openOverlay :: "trigger \<Rightarrow> page \<Rightarrow> page" where
  "openOverlay t p =
     (if data_src t = [] then p
      else p\<lparr>overlay_image_src := data_src t, view := resetTransform (view p),
             overlay_visible := True\<rparr>)"

definition openDocOverlay :: "string \<Rightarrow> trigger \<Rightarrow> page \<Rightarrow> page" where
  "openDocOverlay previewLabel t p =
     (if data_src t = [] then p
      else p\<lparr>doc_frame_src := data_src t, doc_title_text := js_or (data_name t) previewLabel,
             doc_overlay_visible := True\<rparr>)"

definition window_open :: "string \<Rightarrow> string \<Rightarrow> page \<Rightarrow> page" where
  "window_open url target p = p\<lparr>window_open_calls := window_open_calls p @ [(url, target)]\<rparr>"

definition onAttachmentsClick :: "string \<Rightarrow> click_event \<Rightarrow> page \<Rightarrow> page" where
  "onAttachmentsClick previewLabel ev p =
     (if \<not> target_is_element ev then p
      else
        (case closest_viewer ev of
           Some viewerTrigger \<Rightarrow> openOverlay viewerTrigger p
         | None \<Rightarrow>
             (case closest_preview ev of
                Some previewTrigger \<Rightarrow>
                  (if data_external previewTrigger = ''1''
                   then window_open (data_src previewTrigger) ''_blank'' p
                   else openDocOverlay previewLabel previewTrigger p)
              | None \<Rightarrow> p)))"


section \<open>The delete link (\<open>decorateDeleteUrl\<close>)\<close>

text \<open>
  The \<open>URL\<close> object the function works on: its path, its query string as \<open>search\<close>
  returns it, its fragment, and the list of name-value pairs its \<open>searchParams\<close> holds.
  The browser's own algorithms are parameters of the model: \<open>parse_url\<close> is
  \<open>new URL(url, window.location.origin)\<close>, with \<open>None\<close> when the constructor throws;
  \<open>serialize_params\<close> is the serialiser that rebuilds the query from the pairs after
  \<open>searchParams.set\<close>; \<open>encodeURIComponent\<close> is the function of that name.
\<close>

record url_object =
  pathname :: string
  search :: string
  hash :: string
  searchParams :: "(string \<times> string) list"

record browser =
  parse_url :: "string \<Rightarrow> url_object option"
  serialize_params :: "(string \<times> string) list \<Rightarrow> string"
  encodeURIComponent :: "string \<Rightarrow> string"

text \<open>\<open>deleteNext\<close> (lines 28-30): the list's \<open>data-next-url\<close>, or the path and query of
  the current page.\<close>

definition deleteNext_of :: "string \<Rightarrow> string \<Rightarrow> string \<Rightarrow> string" where
  "deleteNext_of nextUrl location_pathname location_search =
     js_or nextUrl (location_pathname @ location_search)"

definition params_has :: "string \<Rightarrow> (string \<times> string) list \<Rightarrow> bool" where
  "params_has name ps = (map_of ps name \<noteq> None)"

text \<open>\<open>URLSearchParams.set\<close>: the first pair of that name takes the value and the other
  pairs of that name are removed; with no such pair, the new pair is appended.\<close>

fun set_first :: "string \<Rightarrow> string \<Rightarrow> (string \<times> string) list \<Rightarrow> (string \<times> string) list" where
  "set_first name v [] = []"
| "set_first name v ((k, x) # ps) =
     (if k = name then (name, v) # filter (\<lambda>(k', x'). k' \<noteq> name) ps
      else (k, x) # set_first name v ps)"

definition params_set :: "string \<Rightarrow> string \<Rightarrow> (string \<times> string) list \<Rightarrow> (string \<times> string) list" where
  "params_set name v ps = (if params_has name ps then set_first name v ps else ps @ [(name, v)])"

text \<open>\<open>parsed.searchParams.set(name, v)\<close> also rewrites the query of the URL.\<close>

definition url_set_param :: "browser \<Rightarrow> string \<Rightarrow> string \<Rightarrow> url_object \<Rightarrow> url_object" where
  "url_set_param br name v u =
     (let ps = params_set name v (searchParams u);
          query = serialize_params br ps
      in u\<lparr>searchParams := ps, search := (if query = [] then [] else ''?'' @ query)\<rparr>)"

text \<open>\<open>String.prototype.includes\<close>.\<close>

fun str_includes :: "string \<Rightarrow> string \<Rightarrow> bool" where
  "str_includes [] sub = (sub = [])"
| "str_includes (c # cs) sub = (prefix sub (c # cs) \<or> str_includes cs sub)"

text \<open>The URL object as the \<open>try\<close> block leaves it.\<close>

definition decorated_url :: "browser \<Rightarrow> string \<Rightarrow> url_object \<Rightarrow> url_object" where
  "decorated_url br deleteNext parsed =
     (if deleteNext \<noteq> [] \<and> \<not> params_has ''next'' (searchParams parsed)
      then url_set_param br ''next'' deleteNext parsed
      else parsed)"

definition decorateDeleteUrl :: "browser \<Rightarrow> string \<Rightarrow> string \<Rightarrow> string" where
  "decorateDeleteUrl br deleteNext url =
     (if url = [] then url
      else
        (case parse_url br url of
           Some parsed \<Rightarrow>
             (let parsed' = decorated_url br deleteNext parsed
              in pathname parsed' @ search parsed' @ hash parsed')
         | None \<Rightarrow>
             (if str_includes url ''next='' \<or> deleteNext = [] then url
              else
                (let glue = (if str_includes url ''?'' then ''&'' else ''?'')
                 in url @ glue @ ''next='' @ encodeURIComponent br deleteNext))))"


section \<open>Concrete scenarios\<close>

text \<open>Inputs on which the theorems below are instantiated and evaluated.\<close>

definition pinch_ops :: "lightbox_op list" where
  "pinch_ops =
     [ZoomIn,
      Wheel \<lparr>deltaY = - 120, wheelClientX = 300, wheelClientY = 200, rectLeft = 0, rectTop = 0,
             rectWidth = 400, rectHeight = 400\<rparr>,
      PointerDown \<lparr>pointerId = 1, clientX = 0, clientY = 0\<rparr>,
      PointerDown \<lparr>pointerId = 2, clientX = 3, clientY = 4\<rparr>,
      PointerMove \<lparr>pointerId = 2, clientX = 30, clientY = 40\<rparr>,
      PointerUp \<lparr>pointerId = 2, clientX = 30, clientY = 40\<rparr>,
      ZoomOut]"

definition one_finger :: lightbox where
  "one_finger =
     lightbox_init\<lparr>scale := 2, zoomed := True, isDragging := True, dragging := True,
       dragStartX := 10, dragStartY := 20,
       pointers := [(1, \<lparr>pointerId = 1, clientX = 10, clientY = 20\<rparr>)]\<rparr>"

definition second_finger :: pointer_event where
  "second_finger = \<lparr>pointerId = 2, clientX = 10, clientY = 20\<rparr>"

definition spread_moves :: "pointer_event list" where
  "spread_moves =
     [\<lparr>pointerId = 2, clientX = 110, clientY = 20\<rparr>,
      \<lparr>pointerId = 1, clientX = 0, clientY = 20\<rparr>,
      \<lparr>pointerId = 2, clientX = 210, clientY = 20\<rparr>]"

definition wheel_before :: lightbox where
  "wheel_before = lightbox_init\<lparr>scale := 2, zoomed := True\<rparr>"

definition wheel_out :: wheel_event where
  "wheel_out = \<lparr>deltaY = 100, wheelClientX = 300, wheelClientY = 200, rectLeft = 0,
     rectTop = 0, rectWidth = 400, rectHeight = 400\<rparr>"

definition wheel_in :: wheel_event where
  "wheel_in = wheel_out\<lparr>deltaY := - 100\<rparr>"

definition server_gallery :: gallery where
  "server_gallery = \<lparr>cards = [], emptyState = Some \<lparr>hidden = True, textContent = []\<rparr>\<rparr>"

definition photo_meta :: attachment_meta where
  "photo_meta = \<lparr>meta_id = ''7'', meta_name = ''roof.png'', meta_url = ''/media/roof.png'',
     meta_category = ''image'', meta_is_image = True\<rparr>"

definition report_meta :: attachment_meta where
  "report_meta = \<lparr>meta_id = ''8'', meta_name = ''report.pdf'', meta_url = ''/media/report.pdf'',
     meta_category = [], meta_is_image = False\<rparr>"

definition demo_labels :: labels where
  "demo_labels = \<lparr>label_uploading = ''Uploading'', label_uploaded = ''Uploaded'',
     label_failed = ''Upload failed'', label_empty = ''No attachments uploaded yet.''\<rparr>"

definition one_upload :: uploader where
  "one_upload =
     run_events demo_labels [FileChosen ''a.png''] (uploader_init demo_labels server_gallery)"

definition structured_error :: upload_response where
  "structured_error = \<lparr>resp_error = ''Forbidden'',
     resp_errors = Some [\<lparr>fe_filename = ''a.png'', fe_errors = Some [''File too large'']\<rparr>],
     resp_attachments = None\<rparr>"

definition validation_error :: upload_response where
  "validation_error = structured_error\<lparr>resp_error := []\<rparr>"

definition bare_error :: upload_response where
  "bare_error = \<lparr>resp_error = [], resp_errors = Some [], resp_attachments = None\<rparr>"

definition failed_upload_run :: uploader where
  "failed_upload_run =
     run_events demo_labels
       [FileChosen ''a.png'', Load 0 400 (Some validation_error), Elapse 1000,
        FileChosen ''b.png'', Elapse 1500]
       (uploader_init demo_labels server_gallery)"

definition saved_response :: upload_response where
  "saved_response = \<lparr>resp_error = [], resp_errors = Some [],
     resp_attachments = Some [Meta photo_meta]\<rparr>"

definition two_cards :: gallery where
  "two_cards = merge_attachments ''None yet'' [Meta photo_meta, Meta report_meta] server_gallery"

definition photo_update :: attachment_meta where
  "photo_update = photo_meta\<lparr>meta_name := ''roof-v2.png''\<rparr>"

definition plan_meta :: attachment_meta where
  "plan_meta = \<lparr>meta_id = ''9'', meta_name = ''plan.png'', meta_url = ''/media/plan.png'',
     meta_category = ''image'', meta_is_image = True\<rparr>"

definition success_response :: upload_response where
  "success_response = \<lparr>resp_error = [], resp_errors = None,
     resp_attachments = Some [Meta plan_meta, Meta photo_update]\<rparr>"

definition blank_page :: page where
  "blank_page = \<lparr>overlay_visible = False, overlay_image_src = [], view = lightbox_init,
     doc_overlay_visible = False, doc_frame_src = [], doc_title_text = [],
     window_open_calls = []\<rparr>"

definition external_trigger :: trigger where
  "external_trigger = \<lparr>data_src = ''https://view.example/doc?id=4'', data_external = ''1'',
     data_name = ''lease.docx''\<rparr>"

definition inline_trigger :: trigger where
  "inline_trigger = \<lparr>data_src = ''/media/lease.pdf'', data_external = [],
     data_name = ''lease.pdf''\<rparr>"

definition click_on :: "trigger \<Rightarrow> click_event" where
  "click_on t = \<lparr>target_is_element = True, closest_viewer = None, closest_preview = Some t\<rparr>"

text \<open>A small stand-in for the browser: it parses the two delete links below and nothing
  else, writes a pair as \<open>name=value\<close>, and escapes the slash.\<close>

definition escape_slashes :: "string \<Rightarrow> string" where
  "escape_slashes s = concat (map (\<lambda>c. if c = CHR ''/'' then ''%2F'' else [c]) s)"

definition link_with_next :: url_object where
  "link_with_next = \<lparr>pathname = ''/attachments/3/delete/'', search = ''?next=/buildings/2/'',
     hash = [], searchParams = [(''next'', ''/buildings/2/'')]\<rparr>"

definition link_without_next :: url_object where
  "link_without_next = \<lparr>pathname = ''/attachments/3/delete/'', search = ''?confirm=1'',
     hash = [], searchParams = [(''confirm'', ''1'')]\<rparr>"

definition demo_browser :: browser where
  "demo_browser =
     \<lparr>parse_url = map_of
        [(''/attachments/3/delete/?next=/buildings/2/'', link_with_next),
         (''/attachments/3/delete/?confirm=1'', link_without_next)],
      serialize_params =
        (\<lambda>ps. join ''&'' (map (\<lambda>(k, v). escape_slashes k @ ''='' @ escape_slashes v) ps)),
      encodeURIComponent = escape_slashes\<rparr>"

definition return_to :: string where
  "return_to = deleteNext_of [] ''/work-orders/5/'' []"


section \<open>Properties of the lightbox\<close>

lemmas lb_defs = lightbox_init_def stepZoom_def setScale_def updateTransform_def toFixed2_def
  SCALE_STEP_def MIN_SCALE_def MAX_SCALE_def Let_def resetTransform_def onWheel_def
  onPointerDown_def onPointerMove_def onPointerUp_def closeOverlay_def js_div_def
  pinch_distance_def pointer_values_def distanceBetween_def

subsection \<open>Rounding to two decimals\<close>

lemma toFixed2_in_range:
  assumes "1 \<le> x" and "x \<le> 5"
  shows "1 \<le> toFixed2 x \<and> toFixed2 x \<le> 5"
proof -
  have "round (100::real) \<le> round (x * 100)" using assms by (intro round_mono) simp
  moreover have "round (x * 100) \<le> round (500::real)" using assms by (intro round_mono) simp
  ultimately have "100 \<le> real_of_int (round (x * 100))" "real_of_int (round (x * 100)) \<le> 500"
    by simp_all
  then show ?thesis using assms by (simp add: toFixed2_def)
qed

lemma is_centi_toFixed2: "is_centi (toFixed2 x)"
  by (simp add: is_centi_def toFixed2_def)

lemma toFixed2_centi:
  assumes "0 \<le> x" and "is_centi x"
  shows "toFixed2 x = x"
proof -
  have "round (x * 100) = \<lfloor>x * 100\<rfloor>"
    using assms(2) by (metis is_centi_def round_of_int)
  then show ?thesis using assms by (simp add: toFixed2_def is_centi_def)
qed

lemma is_centi_add_quarter: "is_centi x \<Longrightarrow> is_centi (x + 0.25)"
proof -
  assume a: "is_centi x"
  have "(x + 0.25) * 100 = x * 100 + of_int 25" by (simp add: algebra_simps)
  then have "\<lfloor>(x + 0.25) * 100\<rfloor> = \<lfloor>x * 100\<rfloor> + 25" by (simp only: floor_add_int)
  then show ?thesis using a by (simp add: is_centi_def algebra_simps)
qed

lemma is_centi_sub_quarter: "is_centi x \<Longrightarrow> is_centi (x - 0.25)"
proof -
  assume a: "is_centi x"
  have "(x - 0.25) * 100 = x * 100 - of_int 25" by (simp add: algebra_simps)
  then have "\<lfloor>(x - 0.25) * 100\<rfloor> = \<lfloor>x * 100\<rfloor> - 25" by (simp only: floor_diff_of_int)
  then show ?thesis using a by (simp add: is_centi_def algebra_simps)
qed

lemma is_centi_1 [simp]: "is_centi 1"
  by (simp add: is_centi_def)

lemma is_centi_5 [simp]: "is_centi 5"
  by (simp add: is_centi_def)

subsection \<open>What each handler does to the scale\<close>

lemma scale_updateTransform [simp]: "scale (updateTransform s) = scale s"
  by (simp add: updateTransform_def)

lemma panX_updateTransform [simp]: "panX (updateTransform s) = panX s"
  by (simp add: updateTransform_def)

lemma panY_updateTransform [simp]: "panY (updateTransform s) = panY s"
  by (simp add: updateTransform_def)

lemma scale_setScale: "scale (setScale n k s) = toFixed2 (min MAX_SCALE (max MIN_SCALE n))"
  by (simp add: setScale_def Let_def)

lemma setScale_in_range: "1 \<le> scale (setScale n k s) \<and> scale (setScale n k s) \<le> 5"
  unfolding scale_setScale by (rule toFixed2_in_range) (simp_all add: MAX_SCALE_def MIN_SCALE_def)

lemma pan_setScale:
  "panX (setScale n k s) = (if \<not> k \<and> scale (setScale n k s) = 1 then 0 else panX s)
   \<and> panY (setScale n k s) = (if \<not> k \<and> scale (setScale n k s) = 1 then 0 else panY s)"
  by (simp add: setScale_def Let_def MIN_SCALE_def)

lemma scale_onWheel:
  "scale (onWheel ev s) = scale (stepZoom ((if deltaY ev < 0 then 1 else - 1) * SCALE_STEP) s)"
  by (simp add: onWheel_def Let_def)

lemma scale_onPointerDown [simp]: "scale (onPointerDown ev s) = scale s"
  by (simp add: onPointerDown_def Let_def)

lemma scale_onPointerUp [simp]: "scale (onPointerUp ev s) = scale s"
  by (simp add: onPointerUp_def Let_def)

lemma scale_closeOverlay [simp]: "scale (closeOverlay s) = scale s"
  by (simp add: closeOverlay_def)

lemma scale_resetTransform [simp]: "scale (resetTransform s) = 1"
  by (simp add: resetTransform_def)

lemma onPointerMove_cases:
  "onPointerMove ev s = Some s' \<Longrightarrow> scale s' = scale s \<or> (\<exists>n t. s' = setScale n True t)"
  by (auto simp: onPointerMove_def Let_def js_div_def split: if_splits)

lemma onPointerMove_total: "\<exists>s'. onPointerMove ev s = Some s'"
  by (simp add: onPointerMove_def Let_def js_div_def)

lemma apply_op_total: "\<exists>s'. apply_op x s = Some s'"
  by (cases x) (simp_all add: onPointerMove_total)

lemma apply_op_in_range:
  assumes "apply_op x s = Some s'" and "1 \<le> scale s \<and> scale s \<le> 5"
  shows "1 \<le> scale s' \<and> scale s' \<le> 5"
proof (cases x)
  case (PointerMove ev)
  then have "onPointerMove ev s = Some s'" using assms(1) by simp
  from onPointerMove_cases[OF this] show ?thesis
    using assms(2) setScale_in_range by auto
qed (use assms setScale_in_range in \<open>auto simp: stepZoom_def scale_onWheel\<close>)

lemma apply_op_centi:
  assumes "apply_op x s = Some s'" and "is_centi (scale s)"
  shows "is_centi (scale s')"
proof (cases x)
  case (PointerMove ev)
  then have "onPointerMove ev s = Some s'" using assms(1) by simp
  from onPointerMove_cases[OF this] show ?thesis
    using assms(2) by (auto simp: scale_setScale is_centi_toFixed2)
qed (use assms in \<open>auto simp: stepZoom_def scale_onWheel scale_setScale is_centi_toFixed2\<close>)

lemma run_ops_in_range:
  "1 \<le> scale s \<and> scale s \<le> 5 \<Longrightarrow>
   \<exists>s'. run_ops ops s = Some s' \<and> 1 \<le> scale s' \<and> scale s' \<le> 5"
proof (induction ops arbitrary: s)
  case Nil
  then show ?case by simp
next
  case (Cons x xs)
  obtain t where t: "apply_op x s = Some t" using apply_op_total by blast
  have "1 \<le> scale t \<and> scale t \<le> 5" by (rule apply_op_in_range[OF t Cons.prems])
  from Cons.IH[OF this] t show ?case by simp
qed

lemma run_ops_centi:
  "is_centi (scale s) \<Longrightarrow> \<exists>s'. run_ops ops s = Some s' \<and> is_centi (scale s')"
proof (induction ops arbitrary: s)
  case Nil
  then show ?case by simp
next
  case (Cons x xs)
  obtain t where t: "apply_op x s = Some t" using apply_op_total by blast
  have "is_centi (scale t)" by (rule apply_op_centi[OF t Cons.prems])
  from Cons.IH[OF this] t show ?case by simp
qed

subsection \<open>The scale stays within its bounds\<close>

text \<open>
  Claim C1. Whatever sequence of lightbox operations (zoom-in and zoom-out steps, wheel
  ticks, pointer events of drag and pinch gestures, resets, opening and closing) is applied
  to a view state whose scale lies in \<open>[1, 5]\<close>, as the initial state's does, every
  operation completes and the scale of the resulting state lies in \<open>[1, 5]\<close>; the reset
  action yields scale 1 and pan (0, 0) from any state.
\<close>

theorem lightbox_scale_stays_in_range:
  assumes "1 \<le> scale s" and "scale s \<le> 5"
  shows "(\<exists>s'. run_ops ops s = Some s' \<and> 1 \<le> scale s' \<and> scale s' \<le> 5)
       \<and> scale (resetTransform t) = 1 \<and> panX (resetTransform t) = 0
       \<and> panY (resetTransform t) = 0"
proof -
  have "\<exists>s'. run_ops ops s = Some s' \<and> 1 \<le> scale s' \<and> scale s' \<le> 5"
    using assms by (intro run_ops_in_range) simp
  moreover have "scale (resetTransform t) = 1 \<and> panX (resetTransform t) = 0
      \<and> panY (resetTransform t) = 0"
    by (simp add: resetTransform_def)
  ultimately show ?thesis by blast
qed

theorem lightbox_scale_stays_in_range_witness:
  "1 \<le> scale lightbox_init \<and> scale lightbox_init \<le> 5
   \<and> (\<exists>s'. run_ops pinch_ops lightbox_init = Some s' \<and> 1 \<le> scale s' \<and> scale s' \<le> 5)
   \<and> scale (resetTransform lightbox_init) = 1"
  using lightbox_scale_stays_in_range [of lightbox_init pinch_ops lightbox_init]
  by (simp add: lightbox_init_def)

subsection \<open>A pinch that starts at distance zero\<close>

lemma onPointerMove_no_pinch_baseline:
  assumes "initialPinchDistance s = 0"
  shows "\<exists>s'. onPointerMove ev s = Some s' \<and> scale s' = scale s \<and> initialPinchDistance s' = 0"
  using assms by (simp add: onPointerMove_def Let_def updateTransform_def)

lemma run_moves_no_pinch_baseline:
  "initialPinchDistance s = 0 \<Longrightarrow>
   \<exists>s'. run_ops (map PointerMove ms) s = Some s' \<and> scale s' = scale s"
proof (induction ms arbitrary: s)
  case Nil
  then show ?case by simp
next
  case (Cons m ms)
  from onPointerMove_no_pinch_baseline[OF Cons.prems, of m]
  obtain t where t: "onPointerMove m s = Some t" "scale t = scale s" "initialPinchDistance t = 0"
    by blast
  from Cons.IH[OF t(3)] t(1,2) show ?case by simp
qed

lemma onPointerDown_pinch_baseline:
  assumes "pointer_values (onPointerDown ev s) = [a, b]"
  shows "initialPinchDistance (onPointerDown ev s) = distanceBetween a b"
proof -
  have p: "pointers (onPointerDown ev s) = AList.update (pointerId ev) ev (pointers s)"
    by (simp add: onPointerDown_def Let_def)
  then have v: "map snd (AList.update (pointerId ev) ev (pointers s)) = [a, b]"
    using assms by (simp add: pointer_values_def)
  then have "length (AList.update (pointerId ev) ev (pointers s)) = 2"
    by (metis length_map length_Cons list.size(3) numeral_2_eq_2)
  then show ?thesis using v
    by (simp add: onPointerDown_def Let_def pinch_distance_def pointer_values_def)
qed

text \<open>
  Claim C9. When a pointer-down leaves two active pointers at identical coordinates, the
  initial pinch distance it records is 0, and every sequence of pointer-move events that
  follows leaves the scale unchanged. No pointer-move ever divides by zero: the division is
  reached only under the guard that the initial pinch distance is positive, so
  \<open>onPointerMove\<close> always has a result.
\<close>

theorem pinch_from_zero_distance_keeps_scale:
  assumes "pointer_values (onPointerDown ev s) = [a, b]"
    and "clientX a = clientX b" and "clientY a = clientY b"
  shows "initialPinchDistance (onPointerDown ev s) = 0
       \<and> (\<exists>s'. run_ops (map PointerMove ms) (onPointerDown ev s) = Some s'
             \<and> scale s' = scale (onPointerDown ev s))
       \<and> onPointerMove m t \<noteq> None"
proof -
  have z: "initialPinchDistance (onPointerDown ev s) = 0"
    using onPointerDown_pinch_baseline[OF assms(1)] assms(2,3)
    by (simp add: distanceBetween_def)
  have "onPointerMove m t \<noteq> None" using onPointerMove_total[of m t] by auto
  with z run_moves_no_pinch_baseline[OF z, of ms] show ?thesis by simp
qed

theorem pinch_from_zero_distance_keeps_scale_witness:
  "pointer_values (onPointerDown second_finger one_finger)
     = [\<lparr>pointerId = 1, clientX = 10, clientY = 20\<rparr>, second_finger]
   \<and> clientX \<lparr>pointerId = 1, clientX = 10, clientY = 20\<rparr> = clientX second_finger
   \<and> clientY \<lparr>pointerId = 1, clientX = 10, clientY = 20\<rparr> = clientY second_finger
   \<and> initialPinchDistance (onPointerDown second_finger one_finger) = 0
   \<and> (\<exists>s'. run_ops (map PointerMove spread_moves) (onPointerDown second_finger one_finger)
            = Some s'
         \<and> scale s' = 2)"
  using pinch_from_zero_distance_keeps_scale
    [of second_finger one_finger "\<lparr>pointerId = 1, clientX = 10, clientY = 20\<rparr>" second_finger
        spread_moves second_finger one_finger]
  by (simp add: one_finger_def second_finger_def lightbox_init_def onPointerDown_def
      pointer_values_def pinch_distance_def distanceBetween_def Let_def)

subsection \<open>Wheel ticks\<close>

lemma stepZoom_in_centi:
  assumes "1 \<le> scale s" and "scale s \<le> 5" and "is_centi (scale s)"
  shows "scale (stepZoom SCALE_STEP s) = min 5 (scale s + 0.25)"
proof -
  have c: "is_centi (min 5 (scale s + 0.25))"
    using is_centi_add_quarter[OF assms(3)] by (simp add: min_def)
  have "max 1 (scale s + 0.25) = scale s + 0.25" using assms(1) by simp
  then have "scale (stepZoom SCALE_STEP s) = toFixed2 (min 5 (scale s + 0.25))"
    by (simp add: stepZoom_def scale_setScale SCALE_STEP_def MIN_SCALE_def MAX_SCALE_def)
  also have "\<dots> = min 5 (scale s + 0.25)"
    using assms(1) c by (intro toFixed2_centi) simp_all
  finally show ?thesis .
qed

lemma stepZoom_out_centi:
  assumes "1 \<le> scale s" and "scale s \<le> 5" and "is_centi (scale s)"
  shows "scale (stepZoom (- SCALE_STEP) s) = max 1 (scale s - 0.25)"
proof -
  have c: "is_centi (max 1 (scale s - 0.25))"
    using is_centi_sub_quarter[OF assms(3)] by (simp add: max_def)
  have "min 5 (max 1 (scale s - 0.25)) = max 1 (scale s - 0.25)" using assms(2) by simp
  then have "scale (stepZoom (- SCALE_STEP) s) = toFixed2 (max 1 (scale s - 0.25))"
    by (simp add: stepZoom_def scale_setScale SCALE_STEP_def MIN_SCALE_def MAX_SCALE_def)
  also have "\<dots> = max 1 (scale s - 0.25)"
    using c by (intro toFixed2_centi) simp_all
  finally show ?thesis .
qed

text \<open>
  Claim C6, as amended. From a view state whose scale is a multiple of 0.01 in \<open>[1, 5]\<close>
  (every reachable state), a wheel event sets the scale to the previous scale plus 0.25
  when \<open>deltaY\<close> is negative and minus 0.25 otherwise, clamped to \<open>[1, 5]\<close>. The pan is
  nudged by 5% of the cursor's offset from the centre of the image only when the scale
  has increased; on every other tick the pan is not nudged: it is left as it was, or reset
  to (0, 0) when the scale is then 1.
\<close>

theorem wheel_steps_scale_and_nudges_on_zoom_in:
  assumes "1 \<le> scale s" and "scale s \<le> 5" and "is_centi (scale s)"
  shows "scale (onWheel ev s)
           = (if deltaY ev < 0 then min 5 (scale s + 0.25) else max 1 (scale s - 0.25))
       \<and> (scale s < scale (onWheel ev s) \<longrightarrow>
            panX (onWheel ev s) = panX s + wheel_offsetX ev * 0.05
          \<and> panY (onWheel ev s) = panY s + wheel_offsetY ev * 0.05)
       \<and> (\<not> scale s < scale (onWheel ev s) \<longrightarrow>
            panX (onWheel ev s) = (if scale (onWheel ev s) = 1 then 0 else panX s)
          \<and> panY (onWheel ev s) = (if scale (onWheel ev s) = 1 then 0 else panY s))"
proof -
  let ?d = "(if deltaY ev < 0 then 1 else - 1) * SCALE_STEP"
  let ?s1 = "stepZoom ?d s"
  have sc: "scale (onWheel ev s) = scale ?s1" by (rule scale_onWheel)
  have val: "scale ?s1 = (if deltaY ev < 0 then min 5 (scale s + 0.25) else max 1 (scale s - 0.25))"
    using stepZoom_in_centi[OF assms] stepZoom_out_centi[OF assms] by simp
  have pan1: "panX ?s1 = (if scale ?s1 = 1 then 0 else panX s)"
             "panY ?s1 = (if scale ?s1 = 1 then 0 else panY s)"
    using pan_setScale[of "scale s + ?d" False s] by (simp_all add: stepZoom_def)
  have up: "scale s < scale ?s1 \<Longrightarrow>
      panX (onWheel ev s) = panX ?s1 + wheel_offsetX ev * 0.05
    \<and> panY (onWheel ev s) = panY ?s1 + wheel_offsetY ev * 0.05"
    by (simp add: onWheel_def Let_def wheel_offsetX_def wheel_offsetY_def)
  have same: "\<not> scale s < scale ?s1 \<Longrightarrow> onWheel ev s = ?s1"
    by (simp add: onWheel_def Let_def)
  have ne1: "scale s < scale ?s1 \<Longrightarrow> scale ?s1 \<noteq> 1" using assms(1) by simp
  show ?thesis
  proof (cases "scale s < scale ?s1")
    case True
    with up ne1 pan1 sc val show ?thesis by simp
  next
    case False
    with same pan1 sc val show ?thesis by simp
  qed
qed

theorem wheel_steps_scale_and_nudges_on_zoom_in_witness:
  "1 \<le> scale wheel_before \<and> scale wheel_before \<le> 5 \<and> is_centi (scale wheel_before)
   \<and> scale (onWheel wheel_in wheel_before) = 2.25
   \<and> scale wheel_before < scale (onWheel wheel_in wheel_before)
   \<and> panX (onWheel wheel_in wheel_before) = 5
   \<and> scale (onWheel wheel_out wheel_before) = 1.75
   \<and> \<not> scale wheel_before < scale (onWheel wheel_out wheel_before)
   \<and> panX (onWheel wheel_out wheel_before) = 0"
  using wheel_steps_scale_and_nudges_on_zoom_in [of wheel_before wheel_in]
    wheel_steps_scale_and_nudges_on_zoom_in [of wheel_before wheel_out]
  by (simp add: wheel_before_def wheel_in_def wheel_out_def lightbox_init_def is_centi_def
      wheel_offsetX_def)

text \<open>
  The claim as first stated, that every wheel event nudges the pan by 5% of the cursor's
  offset, fails on a zoom-out tick: at scale 2 (reached by four zoom-in steps) with the
  cursor 100 pixels right of the centre, a wheel event with positive \<open>deltaY\<close> lowers the
  scale to 1.75 and leaves the horizontal pan where it was.
\<close>

theorem wheel_zoom_out_does_not_nudge_pan:
  "run_ops [ZoomIn, ZoomIn, ZoomIn, ZoomIn] lightbox_init = Some wheel_before
   \<and> wheel_offsetX wheel_out = 100
   \<and> scale (onWheel wheel_out wheel_before) = 1.75
   \<and> panX (onWheel wheel_out wheel_before) = panX wheel_before
   \<and> panX (onWheel wheel_out wheel_before) \<noteq> panX wheel_before + wheel_offsetX wheel_out * 0.05"
  by (simp add: wheel_before_def wheel_out_def wheel_offsetX_def lb_defs round_def)


section \<open>Properties of the gallery\<close>

lemma emptyState_updateEmptyState:
  "(emptyState (updateEmptyState l g) = None) = (emptyState g = None)"
  by (simp add: updateEmptyState_def Let_def split: option.splits)

lemma cards_updateEmptyState [simp]: "cards (updateEmptyState l g) = cards g"
  by (simp add: updateEmptyState_def Let_def split: option.splits)

lemma exactly_one_updateEmptyState:
  "emptyState g \<noteq> None \<Longrightarrow> exactly_one_of (updateEmptyState l g)"
  by (auto simp: updateEmptyState_def exactly_one_of_def empty_state_visible_def Let_def
      split: option.splits)

lemma addAttachment_keeps_exactly_one:
  assumes "emptyState g \<noteq> None" and "exactly_one_of g"
  shows "emptyState (addAttachmentFromMeta l m g) \<noteq> None
       \<and> exactly_one_of (addAttachmentFromMeta l m g)"
proof (cases "renderAttachment m")
  case None
  then show ?thesis using assms by (simp add: addAttachmentFromMeta_def)
next
  case (Some element)
  then obtain cs where "addAttachmentFromMeta l m g = updateEmptyState l (g\<lparr>cards := cs\<rparr>)"
    by (simp add: addAttachmentFromMeta_def Let_def)
  moreover have "emptyState (g\<lparr>cards := cs\<rparr>) \<noteq> None" using assms(1) by simp
  ultimately show ?thesis
    by (simp add: exactly_one_updateEmptyState emptyState_updateEmptyState)
qed

lemma merge_keeps_exactly_one:
  "emptyState g \<noteq> None \<Longrightarrow> exactly_one_of g \<Longrightarrow>
   emptyState (merge_attachments l ms g) \<noteq> None \<and> exactly_one_of (merge_attachments l ms g)"
proof (induction ms arbitrary: g)
  case Nil
  then show ?case by (simp add: merge_attachments_def)
next
  case (Cons m ms)
  from addAttachment_keeps_exactly_one[OF Cons.prems, of l m]
  have "emptyState (merge_attachments l ms (addAttachmentFromMeta l m g)) \<noteq> None
      \<and> exactly_one_of (merge_attachments l ms (addAttachmentFromMeta l m g))"
    by (intro Cons.IH) simp_all
  then show ?case by (simp add: merge_attachments_def)
qed

text \<open>
  Claim C2. On a page that has the empty-state placeholder, after the script's
  initialisation (its closing call of \<open>updateEmptyState\<close>) and after every merge of
  entries of an upload response into the gallery, exactly one of the two holds: the list
  has at least one card, or the placeholder is visible. A single merge keeps the property
  where it held before.
\<close>

theorem gallery_cards_xor_empty_state:
  assumes "emptyState g \<noteq> None"
  shows "exactly_one_of (updateEmptyState l g)
       \<and> exactly_one_of (merge_attachments l ms (updateEmptyState l g))
       \<and> (exactly_one_of g \<longrightarrow> exactly_one_of (addAttachmentFromMeta l m g))"
proof -
  have a: "exactly_one_of (updateEmptyState l g)"
    by (rule exactly_one_updateEmptyState[OF assms])
  have b: "emptyState (updateEmptyState l g) \<noteq> None"
    using assms by (simp add: emptyState_updateEmptyState)
  from merge_keeps_exactly_one[OF b a, of l ms] a addAttachment_keeps_exactly_one[OF assms, of l m]
  show ?thesis by simp
qed

theorem gallery_cards_xor_empty_state_witness:
  "emptyState server_gallery \<noteq> None
   \<and> \<not> exactly_one_of server_gallery
   \<and> empty_state_visible (updateEmptyState ''None yet'' server_gallery)
   \<and> cards (updateEmptyState ''None yet'' server_gallery) = []
   \<and> exactly_one_of (merge_attachments ''None yet'' [Meta photo_meta, NotAnObject, Meta report_meta]
        (updateEmptyState ''None yet'' server_gallery))
   \<and> length (cards (merge_attachments ''None yet'' [Meta photo_meta, NotAnObject, Meta report_meta]
        (updateEmptyState ''None yet'' server_gallery))) = 2"
  using gallery_cards_xor_empty_state
    [of server_gallery "''None yet''" "[Meta photo_meta, NotAnObject, Meta report_meta]"]
  by (simp add: server_gallery_def photo_meta_def report_meta_def merge_attachments_def
      addAttachmentFromMeta_def updateEmptyState_def exactly_one_of_def empty_state_visible_def
      js_or_def Let_def)



section \<open>Properties of the upload queue\<close>

lemmas up_defs = run_events_def uploader_init_def uploadFile_def createQueueItem_def on_load_def
  load_listener_def on_error_def update_item_def scheduleQueueRemoval_def removal_callback_def
  elapse_def in_queue_def has_timer_def error_message_def js_or_def merge_attachments_def
  addAttachmentFromMeta_def updateEmptyState_def Let_def


subsection \<open>What the load listener does\<close>

lemma on_load_None [simp]: "on_load lb k status None st = st"
  by (simp add: on_load_def load_listener_def)

lemma on_load_success:
  assumes "200 \<le> status \<and> status < 300"
  shows "on_load lb k status (Some r) st =
     scheduleQueueRemoval k
       ((update_item k
           (\<lambda>i. i\<lparr>cls_error := False, cls_complete := True, status_text := label_uploaded lb,
                  progress_width := ''100%''\<rparr>) st)
        \<lparr>the_gallery :=
           merge_attachments (label_empty lb)
             (case resp_attachments r of None \<Rightarrow> [] | Some as \<Rightarrow> as) (the_gallery st)\<rparr>)"
  using assms by (simp add: on_load_def load_listener_def Let_def update_item_def)

lemma on_load_failure:
  assumes "\<not> (200 \<le> status \<and> status < 300)"
  shows "on_load lb k status (Some r) st =
     update_item k
       (\<lambda>i. i\<lparr>cls_error := True, status_text := error_message (label_failed lb) (Some r),
              progress_width := ''100%''\<rparr>) st"
  using assms by (auto simp: on_load_def load_listener_def Let_def)

lemma in_queue_update_item:
  assumes "\<And>i. item_key (f i) = item_key i"
  shows "in_queue k (update_item k' f st) = in_queue k st"
proof -
  have "map item_key (map (\<lambda>i. if item_key i = k' then f i else i) xs) = map item_key xs" for xs
    by (induction xs) (simp_all add: assms)
  then show ?thesis by (simp add: in_queue_def update_item_def)
qed

lemma timers_update_item [simp]: "timers (update_item k f st) = timers st"
  by (simp add: update_item_def)

lemma clock_update_item [simp]: "clock (update_item k f st) = clock st"
  by (simp add: update_item_def)

lemma next_key_update_item [simp]: "next_key (update_item k f st) = next_key st"
  by (simp add: update_item_def)

lemma in_queue_removal_callback:
  "in_queue k (removal_callback k' st) = (in_queue k st \<and> k \<noteq> k')"
  by (auto simp: in_queue_def removal_callback_def Let_def)

lemma in_queue_fold_callbacks:
  "in_queue k (foldl (\<lambda>s (w, k'). removal_callback k' s) st due)
     = (in_queue k st \<and> k \<notin> snd ` set due)"
proof (induction due arbitrary: st)
  case Nil
  then show ?case by simp
next
  case (Cons a due)
  obtain w k' where a: "a = (w, k')" by (cases a)
  show ?case using Cons.IH[of "removal_callback k' st"]
    by (auto simp: a in_queue_removal_callback)
qed

lemma fold_callbacks_fields:
  "timers (foldl (\<lambda>s (w, k'). removal_callback k' s) st due) = timers st
   \<and> clock (foldl (\<lambda>s (w, k'). removal_callback k' s) st due) = clock st
   \<and> next_key (foldl (\<lambda>s (w, k'). removal_callback k' s) st due) = next_key st"
  by (induction due arbitrary: st) (auto simp: removal_callback_def Let_def)

lemma in_queue_elapse:
  "in_queue k (elapse d st)
     = (in_queue k st \<and> \<not> (\<exists>w. (w, k) \<in> set (timers st) \<and> w \<le> clock st + d))"
proof -
  let ?due = "filter (\<lambda>(w, k'). w \<le> clock st + d) (timers st)"
  have "(k \<in> snd ` set ?due) = (\<exists>w. (w, k) \<in> set (timers st) \<and> w \<le> clock st + d)"
    by force
  moreover have "in_queue k (st\<lparr>clock := clock st + d,
      timers := filter (\<lambda>(w, k'). \<not> w \<le> clock st + d) (timers st)\<rparr>) = in_queue k st"
    by (simp add: in_queue_def)
  ultimately show ?thesis
    by (simp add: elapse_def Let_def in_queue_fold_callbacks)
qed

lemma elapse_fields:
  "timers (elapse d st) = filter (\<lambda>(w, k'). \<not> w \<le> clock st + d) (timers st)
   \<and> clock (elapse d st) = clock st + d \<and> next_key (elapse d st) = next_key st"
  by (simp add: elapse_def Let_def fold_callbacks_fields)

lemma has_timer_elapse: "has_timer k (elapse d st) \<Longrightarrow> has_timer k st"
  by (auto simp: elapse_fields has_timer_def)

lemma in_queue_on_error [simp]: "in_queue k (on_error lb k' st) = in_queue k st"
  by (simp add: on_error_def in_queue_update_item)

lemma in_queue_on_load [simp]: "in_queue k (on_load lb k' status response st) = in_queue k st"
proof (cases response)
  case None
  then show ?thesis by simp
next
  case (Some r)
  show ?thesis
  proof (cases "200 \<le> status \<and> status < 300")
    case True
    have "in_queue k (on_load lb k' status (Some r) st) = in_queue k (update_item k'
      (\<lambda>i. i\<lparr>cls_error := False, cls_complete := True, status_text := label_uploaded lb,
             progress_width := ''100%''\<rparr>) st)"
      by (simp add: on_load_success[OF True] in_queue_def scheduleQueueRemoval_def)
    then show ?thesis using Some by (simp add: in_queue_update_item)
  next
    case False
    then show ?thesis using Some by (simp add: on_load_failure in_queue_update_item)
  qed
qed

lemma in_queue_uploadFile:
  "in_queue k (uploadFile lb name st) = (in_queue k st \<or> k = next_key st)"
  by (auto simp: uploadFile_def in_queue_def createQueueItem_def)

lemma on_load_fields:
  "timers (on_load lb k status response st)
     = (if 200 \<le> status \<and> status < 300 \<and> response \<noteq> None
        then timers st @ [(clock st + 2500, k)] else timers st)
   \<and> clock (on_load lb k status response st) = clock st
   \<and> next_key (on_load lb k status response st) = next_key st"
proof (cases response)
  case None
  then show ?thesis by simp
next
  case (Some r)
  then show ?thesis
    by (cases "200 \<le> status \<and> status < 300")
      (simp_all add: on_load_success on_load_failure scheduleQueueRemoval_def)
qed

lemma on_error_fields:
  "timers (on_error lb k st) = timers st \<and> clock (on_error lb k st) = clock st
   \<and> next_key (on_error lb k st) = next_key st"
  by (simp add: on_error_def)

lemma uploadFile_fields:
  "timers (uploadFile lb name st) = timers st \<and> clock (uploadFile lb name st) = clock st
   \<and> next_key (uploadFile lb name st) = Suc (next_key st)"
  by (simp add: uploadFile_def)

lemma step_keeps_untimed_item:
  assumes "in_queue k st" and "\<not> has_timer k st" and "not_success_of k e"
  shows "in_queue k (upload_step lb e st) \<and> \<not> has_timer k (upload_step lb e st)"
proof (cases e)
  case (FileChosen name)
  then show ?thesis using assms
    by (simp add: in_queue_uploadFile has_timer_def uploadFile_fields)
next
  case (Load k' status response)
  then show ?thesis using assms by (auto simp: has_timer_def on_load_fields)
next
  case (NetworkError k')
  then show ?thesis using assms by (simp add: has_timer_def on_error_fields)
next
  case (Elapse d)
  have "in_queue k (elapse d st)"
    using assms(1,2) by (force simp: in_queue_elapse has_timer_def)
  then show ?thesis using Elapse assms(2) has_timer_elapse by auto
qed

lemma run_keeps_untimed_item:
  "in_queue k st \<Longrightarrow> \<not> has_timer k st \<Longrightarrow> \<forall>e\<in>set evs. not_success_of k e \<Longrightarrow>
   in_queue k (run_events lb evs st) \<and> \<not> has_timer k (run_events lb evs st)"
proof (induction evs arbitrary: st)
  case Nil
  then show ?case by (simp add: run_events_def)
next
  case (Cons e evs)
  from step_keeps_untimed_item[OF Cons.prems(1,2), of e lb] Cons.prems(3)
  have "in_queue k (upload_step lb e st) \<and> \<not> has_timer k (upload_step lb e st)" by simp
  then have "in_queue k (run_events lb evs (upload_step lb e st))
      \<and> \<not> has_timer k (run_events lb evs (upload_step lb e st))"
    using Cons.prems(3) by (intro Cons.IH) simp_all
  then show ?case by (simp add: run_events_def)
qed

lemma step_fields:
  "clock (upload_step lb e s) = clock s + event_duration e
   \<and> next_key s \<le> next_key (upload_step lb e s)"
  by (cases e) (simp_all add: uploadFile_fields on_load_fields on_error_fields elapse_fields)

lemma step_removal_due:
  assumes "removal_due k T s"
  shows "removal_due k T (upload_step lb e s)"
proof (cases e)
  case (FileChosen name)
  then show ?thesis using assms
    by (auto simp: removal_due_def in_queue_uploadFile uploadFile_fields)
next
  case (Load k' status response)
  then show ?thesis using assms
    by (auto simp: removal_due_def on_load_fields)
next
  case (NetworkError k')
  then show ?thesis using assms by (simp add: removal_due_def on_error_fields)
next
  case (Elapse d)
  show ?thesis
  proof (cases "clock s < T")
    case False
    then show ?thesis using assms Elapse
      by (auto simp: removal_due_def elapse_fields in_queue_elapse)
  next
    case True
    then have h: "in_queue k s" "(T, k) \<in> set (timers s)"
      "list_all (\<lambda>(w, k'). k' = k \<longrightarrow> T \<le> w) (timers s)" "k < next_key s"
      "T \<le> clock s + 2500"
      using assms by (simp_all add: removal_due_def)
    have early: "\<And>w. (w, k) \<in> set (timers s) \<Longrightarrow> T \<le> w"
      using h(3) by (auto simp: list_all_iff)
    show ?thesis
    proof (cases "clock s + d < T")
      case True
      then have "in_queue k (elapse d s)"
        using h(1) early by (fastforce simp: in_queue_elapse)
      moreover have "(T, k) \<in> set (timers (elapse d s))"
        using h(2) True by (simp add: elapse_fields)
      moreover have "list_all (\<lambda>(w, k'). k' = k \<longrightarrow> T \<le> w) (timers (elapse d s))"
        using h(3) by (auto simp: elapse_fields list_all_iff)
      ultimately show ?thesis using True h(4,5) Elapse
        by (simp add: removal_due_def elapse_fields)
    next
      case False
      then have "\<not> in_queue k (elapse d s)"
        using h(2) by (auto simp: in_queue_elapse)
      then show ?thesis using False h(4,5) Elapse
        by (simp add: removal_due_def elapse_fields)
    qed
  qed
qed

lemma run_removal_due:
  "removal_due k T s \<Longrightarrow>
   removal_due k T (run_events lb evs s) \<and> clock (run_events lb evs s) = clock s + elapsed evs"
proof (induction evs arbitrary: s)
  case Nil
  then show ?case by (simp add: run_events_def elapsed_def)
next
  case (Cons e evs)
  have "removal_due k T (upload_step lb e s)" by (rule step_removal_due[OF Cons.prems])
  from Cons.IH[OF this] step_fields[of lb e s] show ?case
    by (simp add: run_events_def elapsed_def)
qed

lemma removal_due_after_success:
  assumes "in_queue k st" and "\<not> has_timer k st" and "k < next_key st"
    and "200 \<le> status \<and> status < 300"
  shows "removal_due k (clock st + 2500) (on_load lb k status (Some r) st)"
proof -
  have "list_all (\<lambda>(w, k'). k' = k \<longrightarrow> clock st + 2500 \<le> w) (timers st)"
    using assms(2) by (force simp: has_timer_def list_all_iff)
  then show ?thesis using assms
    by (simp add: removal_due_def on_load_fields)
qed

lemma find_update_item:
  assumes "in_queue k st" and "\<And>i. item_key (f i) = item_key i"
  shows "\<exists>i. find (\<lambda>i. item_key i = k) (queue_items (update_item k f st)) = Some (f i)"
proof -
  have "k \<in> set (map item_key xs) \<Longrightarrow>
      \<exists>i. find (\<lambda>i. item_key i = k) (map (\<lambda>i. if item_key i = k then f i else i) xs) = Some (f i)"
    for xs
    by (induction xs) (auto simp: assms(2))
  then show ?thesis using assms(1) by (simp add: update_item_def in_queue_def)
qed

lemma item_classes_after_success:
  assumes "in_queue k st" and "200 \<le> status \<and> status < 300"
  shows "item_complete k (on_load lb k status (Some r) st) = Some True
       \<and> item_error k (on_load lb k status (Some r) st) = Some False
       \<and> item_status k (on_load lb k status (Some r) st) = Some (label_uploaded lb)"
proof -
  let ?f = "\<lambda>i. i\<lparr>cls_error := False, cls_complete := True, status_text := label_uploaded lb,
                  progress_width := ''100%''\<rparr>"
  have q: "queue_items (on_load lb k status (Some r) st) = queue_items (update_item k ?f st)"
    by (simp add: on_load_success[OF assms(2)] scheduleQueueRemoval_def)
  from find_update_item[OF assms(1), of ?f] obtain i where
    "find (\<lambda>i. item_key i = k) (queue_items (update_item k ?f st)) = Some (?f i)" by auto
  then show ?thesis using q by (simp add: item_complete_def item_error_def item_status_def)
qed

lemma item_after_failure:
  assumes "in_queue k st" and "\<not> (200 \<le> status \<and> status < 300)"
  shows "item_error k (on_load lb k status (Some r) st) = Some True
       \<and> item_status k (on_load lb k status (Some r) st)
           = Some (error_message (label_failed lb) (Some r))"
proof -
  let ?f = "\<lambda>i. i\<lparr>cls_error := True, status_text := error_message (label_failed lb) (Some r),
                  progress_width := ''100%''\<rparr>"
  from find_update_item[OF assms(1), of ?f] obtain i where
    "find (\<lambda>i. item_key i = k) (queue_items (update_item k ?f st)) = Some (?f i)" by auto
  then show ?thesis
    by (simp add: on_load_failure[OF assms(2)] item_error_def item_status_def)
qed

lemma item_after_network_error:
  assumes "in_queue k st"
  shows "item_error k (on_error lb k st) = Some True
       \<and> item_status k (on_error lb k st) = Some (label_failed lb)"
proof -
  let ?f = "\<lambda>i. i\<lparr>cls_error := True, status_text := label_failed lb, progress_width := ''100%''\<rparr>"
  from find_update_item[OF assms(1), of ?f] obtain i where
    "find (\<lambda>i. item_key i = k) (queue_items (update_item k ?f st)) = Some (?f i)" by auto
  then show ?thesis by (simp add: on_error_def item_error_def item_status_def)
qed


text \<open>
  Claim C3, as amended. A queue item that is in the queue with no removal pending (and
  with a key below the next one to be handed out, as every row the uploader created has)
  becomes complete when its request ends with a 2xx status and a JSON body, and is removed
  from the queue 2.5 seconds later: whatever events follow (time passing in any number of steps,
  further files, loads and errors of any request), the row is in the queue exactly as long
  as less than 2500 ms have passed since the load. An item that reaches the status error,
  by a load with another status or by a network error, is never removed: the row is still
  in the queue after any sequence of delays, further files, errors, and loads other than a
  successful load of its own request.
\<close>

theorem completed_items_removed_error_items_kept:
  assumes "in_queue k st" and "\<not> has_timer k st" and "k < next_key st"
  shows "(200 \<le> status \<and> status < 300 \<longrightarrow>
            item_complete k (on_load lb k status (Some r) st) = Some True
          \<and> in_queue k (run_events lb evs (on_load lb k status (Some r) st))
              = (elapsed evs < 2500))
       \<and> (\<not> (200 \<le> status \<and> status < 300) \<and> (\<forall>e\<in>set evs. not_success_of k e) \<longrightarrow>
            item_error k (on_load lb k status (Some r) st) = Some True
          \<and> in_queue k (run_events lb evs (on_load lb k status (Some r) st)))
       \<and> ((\<forall>e\<in>set evs. not_success_of k e) \<longrightarrow>
            item_error k (on_error lb k st) = Some True
          \<and> in_queue k (run_events lb evs (on_error lb k st)))"
proof -
  have a: "in_queue k (run_events lb evs (on_load lb k status (Some r) st)) = (elapsed evs < 2500)"
    if ok: "200 \<le> status \<and> status < 300"
  proof -
    let ?s1 = "on_load lb k status (Some r) st"
    let ?T = "clock st + 2500"
    from run_removal_due[OF removal_due_after_success[OF assms ok, of lb r], of lb evs]
    have d: "removal_due k ?T (run_events lb evs ?s1)"
      and c: "clock (run_events lb evs ?s1) = clock st + elapsed evs"
      by (simp_all add: on_load_fields)
    from d have "in_queue k (run_events lb evs ?s1) = (clock (run_events lb evs ?s1) < ?T)"
      by (auto simp: removal_due_def split: if_splits)
    then show ?thesis using c by simp
  qed
  have b: "in_queue k (run_events lb evs (on_load lb k status (Some r) st))"
    if "\<not> (200 \<le> status \<and> status < 300)" "\<forall>e\<in>set evs. not_success_of k e"
  proof -
    have "\<not> has_timer k (on_load lb k status (Some r) st)"
      using that(1) assms(2) by (simp add: has_timer_def on_load_fields)
    moreover have "in_queue k (on_load lb k status (Some r) st)" using assms(1) by simp
    ultimately show ?thesis using run_keeps_untimed_item that(2) by blast
  qed
  have c: "in_queue k (run_events lb evs (on_error lb k st))"
    if "\<forall>e\<in>set evs. not_success_of k e"
  proof -
    have "\<not> has_timer k (on_error lb k st)"
      using assms(2) by (simp add: has_timer_def on_error_fields)
    moreover have "in_queue k (on_error lb k st)" using assms(1) by simp
    ultimately show ?thesis using run_keeps_untimed_item that by blast
  qed
  from a b c item_classes_after_success[OF assms(1), of status lb r]
    item_after_failure[OF assms(1), of status lb r] item_after_network_error[OF assms(1), of lb]
  show ?thesis by blast
qed

theorem completed_items_removed_error_items_kept_witness:
  "in_queue 0 one_upload \<and> \<not> has_timer 0 one_upload \<and> 0 < next_key one_upload
   \<and> item_complete 0 (on_load demo_labels 0 200 (Some saved_response) one_upload) = Some True
   \<and> in_queue 0 (run_events demo_labels [Elapse 1000, FileChosen ''b.png'', Elapse 1499]
        (on_load demo_labels 0 200 (Some saved_response) one_upload))
   \<and> \<not> in_queue 0 (run_events demo_labels [Elapse 1000, FileChosen ''b.png'', Elapse 1500]
        (on_load demo_labels 0 200 (Some saved_response) one_upload))
   \<and> item_error 0 (on_load demo_labels 0 400 (Some validation_error) one_upload) = Some True
   \<and> in_queue 0 (run_events demo_labels [Elapse 60000, FileChosen ''b.png'', Elapse 60000]
        (on_load demo_labels 0 400 (Some validation_error) one_upload))
   \<and> item_error 0 (on_error demo_labels 0 one_upload) = Some True
   \<and> in_queue 0 (run_events demo_labels [Elapse 60000, FileChosen ''b.png'', Elapse 60000]
        (on_error demo_labels 0 one_upload))"
  using completed_items_removed_error_items_kept
      [of 0 one_upload 200 demo_labels saved_response
          "[Elapse 1000, FileChosen ''b.png'', Elapse 1499]"]
    completed_items_removed_error_items_kept
      [of 0 one_upload 200 demo_labels saved_response
          "[Elapse 1000, FileChosen ''b.png'', Elapse 1500]"]
    completed_items_removed_error_items_kept
      [of 0 one_upload 400 demo_labels validation_error
          "[Elapse 60000, FileChosen ''b.png'', Elapse 60000]"]
  by (simp add: one_upload_def demo_labels_def server_gallery_def elapsed_def up_defs)

text \<open>
  The claim as first stated, that an item is also removed 2.5 seconds after reaching the
  status error, fails: a file is chosen, its request ends with status 400 and a JSON body
  that reports a validation error, and 2500 ms later, another file having been chosen in
  between, its row is still in the queue, marked as an error and showing the reason.
\<close>

theorem failed_upload_item_is_not_removed:
  "item_error 0 failed_upload_run = Some True
   \<and> item_status 0 failed_upload_run = Some ''File too large''
   \<and> clock failed_upload_run = 2500
   \<and> map item_key (queue_items failed_upload_run) = [0, 1]
   \<and> in_queue 0 failed_upload_run"
  by (simp add: failed_upload_run_def demo_labels_def server_gallery_def validation_error_def
      structured_error_def item_error_def item_status_def up_defs)

subsection \<open>The message of a failed upload\<close>

lemma error_message_cases:
  "resp_error r \<noteq> [] \<Longrightarrow> error_message failed (Some r) = resp_error r"
  "resp_error r = [] \<Longrightarrow>
     error_message failed (Some r) = js_or (join '', '' (first_file_reasons r)) failed"
  by (auto simp: error_message_def js_or_def first_file_reasons_def
      split: option.splits list.splits)

text \<open>
  For a response with a JSON body the message is resolved in the order of the listener's
  expression: the \<open>error\<close> field when it is not empty; otherwise the reasons of the first
  per-file entry of \<open>errors\<close>, joined by a comma and a space, when that is not empty;
  otherwise the label of a failed upload.
\<close>

lemma error_message_priority:
  assumes "in_queue k st" and "\<not> (200 \<le> status \<and> status < 300)"
  shows "item_status k (on_load lb k status (Some r) st)
           = Some (if resp_error r \<noteq> [] then resp_error r
                   else if join '', '' (first_file_reasons r) \<noteq> []
                        then join '', '' (first_file_reasons r)
                        else label_failed lb)"
  using item_after_failure[OF assms, of lb r]
  by (simp add: error_message_cases js_or_def)

text \<open>
  Claim C4. The claim holds for a response with a JSON body, but the listener does not
  reach the generic label when the response has none. At a load with status 500 and a body
  that is empty or not JSON, \<open>xhr.response\<close> is \<open>null\<close>, the listener throws
  \<open>InvalidStateError\<close> on reading \<open>xhr.responseText\<close>, and the row stays as it was:
  it still shows the uploading label and has no error class, where the claim has it show
  the label of a failed upload. A JSON body with no error information, at the same status,
  does get that label.
\<close>

theorem failed_upload_without_json_body_keeps_uploading_label:
  "in_queue 0 one_upload
   \<and> load_listener demo_labels 0 500 None one_upload = Inl InvalidStateError
   \<and> on_load demo_labels 0 500 None one_upload = one_upload
   \<and> item_status 0 (on_load demo_labels 0 500 None one_upload) = Some ''Uploading''
   \<and> item_error 0 (on_load demo_labels 0 500 None one_upload) = Some False
   \<and> item_status 0 (on_load demo_labels 0 500 (Some bare_error) one_upload)
       = Some ''Upload failed''
   \<and> item_status 0 (on_load demo_labels 0 500 (Some validation_error) one_upload)
       = Some ''File too large''
   \<and> item_status 0 (on_load demo_labels 0 500 (Some structured_error) one_upload)
       = Some ''Forbidden''"
  by (simp add: one_upload_def demo_labels_def server_gallery_def bare_error_def
      validation_error_def structured_error_def item_status_def item_error_def up_defs)

subsection \<open>Merging the entries of a successful response\<close>

lemma find_id_split:
  assumes "find (\<lambda>c. attachmentId c = i) cs = Some e"
  shows "\<exists>before after. cs = before @ e # after \<and> attachmentId e = i
           \<and> (\<forall>c\<in>set before. attachmentId c \<noteq> i) \<and> remove1 e cs = before @ after"
  using assms
proof (induction cs)
  case Nil
  then show ?case by simp
next
  case (Cons c cs)
  show ?case
  proof (cases "attachmentId c = i")
    case True
    with Cons.prems have "e = c" by simp
    with True show ?thesis by (intro exI[of _ "[]"] exI[of _ cs]) simp
  next
    case False
    with Cons.prems have "find (\<lambda>c. attachmentId c = i) cs = Some e" by simp
    from Cons.IH[OF this] obtain before after where
      h: "cs = before @ e # after" "attachmentId e = i"
         "\<forall>c\<in>set before. attachmentId c \<noteq> i" "remove1 e cs = before @ after"
      by blast
    have "c \<noteq> e" using False h(2) by auto
    with h False show ?thesis
      by (intro exI[of _ "c # before"] exI[of _ after]) simp
  qed
qed

lemma cards_addAttachment:
  "cards (addAttachmentFromMeta l (Meta m) g) =
     the (renderAttachment (Meta m)) #
       (case find (\<lambda>c. attachmentId c = meta_id m) (cards g) of
          None \<Rightarrow> cards g | Some e \<Rightarrow> remove1 e (cards g))"
  by (simp add: addAttachmentFromMeta_def Let_def split: option.splits list.splits)

lemma gallery_on_load_success:
  assumes "200 \<le> status" "status < 300"
  shows "the_gallery (on_load lb k status (Some r) st) =
     merge_attachments (label_empty lb)
       (case resp_attachments r of None \<Rightarrow> [] | Some as \<Rightarrow> as) (the_gallery st)"
  using assms by (simp add: on_load_success scheduleQueueRemoval_def update_item_def)

text \<open>
  Claim C5. When the request completes with a 2xx status, every entry of the response's
  \<open>attachments\<close> array is merged into the gallery, in order, by
  \<open>addAttachmentFromMeta\<close>. Merging an entry renders a card with the entry's id; when
  no card with that id is rendered, the new card is put in front of the card list; when
  one is, the first such card is taken out of the list and the new card takes over its id,
  placed at the front of the list, the other cards keeping their order.
\<close>

theorem upload_response_entries_upserted:
  "(200 \<le> status \<and> status < 300 \<and> response = Some r \<and> resp_attachments r = Some entries \<longrightarrow>
      the_gallery (on_load lb k status response st)
        = foldl (\<lambda>g' e. addAttachmentFromMeta (label_empty lb) e g') (the_gallery st) entries)
   \<and> (\<exists>new. renderAttachment (Meta m) = Some new \<and> attachmentId new = meta_id m
        \<and> ((\<forall>c\<in>set (cards g). attachmentId c \<noteq> meta_id m) \<longrightarrow>
              cards (addAttachmentFromMeta l (Meta m) g) = new # cards g)
        \<and> ((\<exists>c\<in>set (cards g). attachmentId c = meta_id m) \<longrightarrow>
              (\<exists>before old after.
                  cards g = before @ old # after \<and> attachmentId old = meta_id m
                \<and> (\<forall>c\<in>set before. attachmentId c \<noteq> meta_id m)
                \<and> cards (addAttachmentFromMeta l (Meta m) g) = new # before @ after)))"
proof -
  obtain new where new: "renderAttachment (Meta m) = Some new" "attachmentId new = meta_id m"
    by simp
  have absent: "cards (addAttachmentFromMeta l (Meta m) g) = new # cards g"
    if "\<forall>c\<in>set (cards g). attachmentId c \<noteq> meta_id m"
  proof -
    have "find (\<lambda>c. attachmentId c = meta_id m) (cards g) = None"
      using that by (simp add: find_None_iff)
    then show ?thesis using new by (simp add: cards_addAttachment)
  qed
  have present: "\<exists>before old after.
        cards g = before @ old # after \<and> attachmentId old = meta_id m
      \<and> (\<forall>c\<in>set before. attachmentId c \<noteq> meta_id m)
      \<and> cards (addAttachmentFromMeta l (Meta m) g) = new # before @ after"
    if "\<exists>c\<in>set (cards g). attachmentId c = meta_id m"
  proof -
    from that obtain e where e: "find (\<lambda>c. attachmentId c = meta_id m) (cards g) = Some e"
      by (cases "find (\<lambda>c. attachmentId c = meta_id m) (cards g)") (auto simp: find_None_iff)
    from find_id_split[OF e] obtain before after where
      "cards g = before @ e # after" "attachmentId e = meta_id m"
      "\<forall>c\<in>set before. attachmentId c \<noteq> meta_id m" "remove1 e (cards g) = before @ after"
      by blast
    then show ?thesis using e new by (auto simp: cards_addAttachment)
  qed
  have load: "the_gallery (on_load lb k status response st)
        = foldl (\<lambda>g' e. addAttachmentFromMeta (label_empty lb) e g') (the_gallery st) entries"
    if "200 \<le> status \<and> status < 300 \<and> response = Some r \<and> resp_attachments r = Some entries"
    using that gallery_on_load_success[of status lb k r st]
    by (simp add: merge_attachments_def)
  from new absent present load show ?thesis by blast
qed

theorem upload_response_entries_upserted_witness:
  "200 \<le> (201::nat) \<and> (201::nat) < 300
   \<and> resp_attachments success_response = Some [Meta plan_meta, Meta photo_update]
   \<and> map attachmentId (cards two_cards) = [''8'', ''7'']
   \<and> map cardTitle (cards two_cards) = [''report.pdf'', ''roof.png'']
   \<and> map attachmentId (cards (addAttachmentFromMeta ''None yet'' (Meta plan_meta) two_cards))
       = [''9'', ''8'', ''7'']
   \<and> map attachmentId (cards (addAttachmentFromMeta ''None yet'' (Meta photo_update) two_cards))
       = [''7'', ''8'']
   \<and> map cardTitle (cards (addAttachmentFromMeta ''None yet'' (Meta photo_update) two_cards))
       = [''roof-v2.png'', ''report.pdf'']
   \<and> map attachmentId (cards (the_gallery (on_load demo_labels 0 201 (Some success_response)
         (one_upload\<lparr>the_gallery := two_cards\<rparr>))))
       = [''7'', ''9'', ''8'']"
  using upload_response_entries_upserted
      [where status = 201 and response = "Some success_response" and r = success_response
         and entries = "[Meta plan_meta, Meta photo_update]" and lb = demo_labels and k = 0
         and st = "one_upload\<lparr>the_gallery := two_cards\<rparr>" and m = plan_meta
         and g = two_cards and l = "''None yet''"]
    upload_response_entries_upserted
      [where status = 201 and response = "Some success_response" and r = success_response
         and entries = "[Meta plan_meta, Meta photo_update]" and lb = demo_labels and k = 0
         and st = "one_upload\<lparr>the_gallery := two_cards\<rparr>" and m = photo_update
         and g = two_cards and l = "''None yet''"]
  by (simp add: success_response_def two_cards_def plan_meta_def photo_update_def photo_meta_def
      report_meta_def server_gallery_def one_upload_def demo_labels_def up_defs)



section \<open>Properties of the document preview trigger\<close>

text \<open>
  Claim C7. A click that activates a document preview trigger (its target is an element
  whose closest preview trigger is that trigger, and it lies in no viewer trigger) is
  handled by the trigger's external flag. When the flag is \<open>"1"\<close>, the trigger's preview
  URL is opened with \<open>window.open\<close> in the target \<open>_blank\<close> and the document preview
  modal is left as it was. Otherwise, for a trigger that carries a preview URL, the
  document preview modal is opened on that URL and no window is opened.
\<close>

theorem external_preview_bypasses_modal:
  assumes "target_is_element ev" and "closest_viewer ev = None"
    and "closest_preview ev = Some t"
  shows "(data_external t = ''1'' \<longrightarrow>
            window_open_calls (onAttachmentsClick pl ev p)
              = window_open_calls p @ [(data_src t, ''_blank'')]
          \<and> doc_overlay_visible (onAttachmentsClick pl ev p) = doc_overlay_visible p
          \<and> doc_frame_src (onAttachmentsClick pl ev p) = doc_frame_src p)
       \<and> (data_external t \<noteq> ''1'' \<and> data_src t \<noteq> [] \<longrightarrow>
            doc_overlay_visible (onAttachmentsClick pl ev p)
          \<and> doc_frame_src (onAttachmentsClick pl ev p) = data_src t
          \<and> window_open_calls (onAttachmentsClick pl ev p) = window_open_calls p)"
  using assms by (simp add: onAttachmentsClick_def window_open_def openDocOverlay_def)

theorem external_preview_bypasses_modal_witness:
  "target_is_element (click_on external_trigger)
   \<and> closest_viewer (click_on external_trigger) = None
   \<and> closest_preview (click_on external_trigger) = Some external_trigger
   \<and> data_external external_trigger = ''1''
   \<and> window_open_calls (onAttachmentsClick ''Preview'' (click_on external_trigger) blank_page)
       = [(''https://view.example/doc?id=4'', ''_blank'')]
   \<and> \<not> doc_overlay_visible (onAttachmentsClick ''Preview'' (click_on external_trigger) blank_page)
   \<and> data_external inline_trigger \<noteq> ''1'' \<and> data_src inline_trigger \<noteq> []
   \<and> doc_overlay_visible (onAttachmentsClick ''Preview'' (click_on inline_trigger) blank_page)
   \<and> doc_frame_src (onAttachmentsClick ''Preview'' (click_on inline_trigger) blank_page)
       = ''/media/lease.pdf''
   \<and> window_open_calls (onAttachmentsClick ''Preview'' (click_on inline_trigger) blank_page) = []"
  using external_preview_bypasses_modal
      [of "click_on external_trigger" external_trigger "''Preview''" blank_page]
    external_preview_bypasses_modal
      [of "click_on inline_trigger" inline_trigger "''Preview''" blank_page]
  by (simp add: click_on_def external_trigger_def inline_trigger_def blank_page_def)



section \<open>Properties of the delete link\<close>

lemma params_set_absent: "\<not> params_has name ps \<Longrightarrow> params_set name v ps = ps @ [(name, v)]"
  by (simp add: params_set_def)

lemma decorated_url_parts:
  "pathname (decorated_url br dn u) = pathname u \<and> hash (decorated_url br dn u) = hash u"
  by (simp add: decorated_url_def url_set_param_def Let_def)

text \<open>
  Claim C10. \<open>decorateDeleteUrl\<close> never overwrites a \<open>next\<close> parameter. When the
  link parses and its parameters include \<open>next\<close>, the URL object is left untouched and
  the result is its path, query and fragment as parsed. In every case the parameters of the
  parsed link are kept, in order and with their values, at the front of the parameters of
  the result, and the object changes only when \<open>next\<close> is absent, by the one pair
  \<open>next = deleteNext\<close> added at the end. When the link does not parse, a link that
  contains \<open>next=\<close> is returned as it is, and otherwise the result only extends the link.
\<close>

theorem delete_url_keeps_existing_next:
  "(url \<noteq> [] \<and> parse_url br url = Some u \<longrightarrow>
        decorateDeleteUrl br dn url
          = pathname u @ search (decorated_url br dn u) @ hash u
      \<and> prefix (searchParams u) (searchParams (decorated_url br dn u))
      \<and> (params_has ''next'' (searchParams u) \<longrightarrow>
            decorated_url br dn u = u
          \<and> decorateDeleteUrl br dn url = pathname u @ search u @ hash u)
      \<and> (decorated_url br dn u \<noteq> u \<longrightarrow> \<not> params_has ''next'' (searchParams u))
      \<and> (\<not> params_has ''next'' (searchParams u) \<and> dn \<noteq> [] \<longrightarrow>
            searchParams (decorated_url br dn u) = searchParams u @ [(''next'', dn)]))
   \<and> (parse_url br url = None \<longrightarrow>
        prefix url (decorateDeleteUrl br dn url)
      \<and> (str_includes url ''next='' \<longrightarrow> decorateDeleteUrl br dn url = url)
      \<and> (decorateDeleteUrl br dn url \<noteq> url \<longrightarrow> \<not> str_includes url ''next=''))"
  by (auto simp: decorateDeleteUrl_def decorated_url_def url_set_param_def Let_def
      params_set_absent)

theorem delete_url_keeps_existing_next_witness:
  "parse_url demo_browser ''/attachments/3/delete/?next=/buildings/2/'' = Some link_with_next
   \<and> params_has ''next'' (searchParams link_with_next)
   \<and> decorateDeleteUrl demo_browser return_to ''/attachments/3/delete/?next=/buildings/2/''
       = ''/attachments/3/delete/?next=/buildings/2/''
   \<and> parse_url demo_browser ''/attachments/3/delete/?confirm=1'' = Some link_without_next
   \<and> \<not> params_has ''next'' (searchParams link_without_next)
   \<and> return_to = ''/work-orders/5/''
   \<and> decorateDeleteUrl demo_browser return_to ''/attachments/3/delete/?confirm=1''
       = ''/attachments/3/delete/?confirm=1&next=%2Fwork-orders%2F5%2F''
   \<and> parse_url demo_browser ''//[x/?next=/a'' = None
   \<and> str_includes ''//[x/?next=/a'' ''next=''
   \<and> decorateDeleteUrl demo_browser return_to ''//[x/?next=/a'' = ''//[x/?next=/a''
   \<and> \<not> str_includes ''//[x/'' ''next=''
   \<and> decorateDeleteUrl demo_browser return_to ''//[x/'' = ''//[x/?next=%2Fwork-orders%2F5%2F''"
  using delete_url_keeps_existing_next
      [of "''/attachments/3/delete/?next=/buildings/2/''" demo_browser link_with_next return_to]
    delete_url_keeps_existing_next
      [of "''/attachments/3/delete/?confirm=1''" demo_browser link_without_next return_to]
    delete_url_keeps_existing_next
      [of "''//[x/?next=/a''" demo_browser link_with_next return_to]
    delete_url_keeps_existing_next
      [of "''//[x/''" demo_browser link_with_next return_to]
  by (simp add: demo_browser_def link_with_next_def link_without_next_def return_to_def
      deleteNext_of_def js_or_def escape_slashes_def decorateDeleteUrl_def decorated_url_def
      url_set_param_def params_set_def params_has_def Let_def)

end
